theory Spec2Isabelle
  imports Main "HOL-Library.Multiset"
begin

section \<open>Quota table\<close>

text \<open>
  \<^verbatim>\<open>var TokenMap = map[int]int{0: 0, 1: 5000000, ..., 78: 17602}\<close>, the same table in
  both variants of the verification server. It is kept as the association list of the
  literal; reading it goes through \<open>TokenMap_get\<close>, which is Go's map index
  expression: a key the map does not hold reads as the zero value of \<open>int\<close>.
\<close>

definition TokenMap :: "(int \<times> int) list" where
  "TokenMap =
    [(0, 0), (1, 5000000), (2, 2425000), (3, 2303750), (4, 2188563), (5, 2079134),
     (6, 1975178), (7, 1876419), (8, 1782598), (9, 1693468), (10, 1608795),
     (11, 1528355), (12, 1451937), (13, 1379340), (14, 1310373), (15, 1244855),
     (16, 1182612), (17, 1123481), (18, 1067307), (19, 1013942), (20, 963245),
     (21, 915082), (22, 869328), (23, 825862), (24, 784569), (25, 745340),
     (26, 708073), (27, 672670), (28, 639036), (29, 607084), (30, 576730),
     (31, 547894), (32, 520499), (33, 494474), (34, 469750), (35, 446263),
     (36, 423950), (37, 402752), (38, 382615), (39, 363484), (40, 345310),
     (41, 328044), (42, 311642), (43, 296060), (44, 281257), (45, 267194),
     (46, 253834), (47, 241143), (48, 229085), (49, 217631), (50, 206750),
     (51, 196412), (52, 186592), (53, 177262), (54, 168399), (55, 159979),
     (56, 151980), (57, 144381), (58, 137162), (59, 130304), (60, 117273),
     (61, 105546), (62, 94992), (63, 85492), (64, 76943), (65, 69249),
     (66, 62324), (67, 56092), (68, 50482), (69, 45434), (70, 40891),
     (71, 36802), (72, 33121), (73, 29809), (74, 26828), (75, 24146),
     (76, 21731), (77, 19558), (78, 17602)]"

definition TokenMap_get :: "int \<Rightarrow> int" where
  "TokenMap_get level = (case map_of TokenMap level of None \<Rightarrow> 0 | Some q \<Rightarrow> q)"

section \<open>Go library functions the servers call\<close>

text \<open>
  Go strings are byte sequences: \<open>len\<close> counts bytes and a slice expression cuts at
  byte positions, which is what \<open>string\<close> (a list of 8-bit \<open>char\<close>) gives.
  A slice expression whose bound exceeds the length panics at run time; the functions
  below that slice return \<open>Inl SliceBoundsOutOfRange\<close> there.
\<close>

datatype go_panic = SliceBoundsOutOfRange

text \<open>\<^verbatim>\<open>strings.TrimLeft(s, cutset)\<close>: drops the leading bytes that occur in the cutset.\<close>

definition TrimLeft :: "string \<Rightarrow> string \<Rightarrow> string" where
  "TrimLeft s cutset = dropWhile (\<lambda>c. c \<in> set cutset) s"

text \<open>
  \<^verbatim>\<open>strings.Split(s, sep)\<close> for a one-byte separator: the substrings between the
  separators, so a string with \<open>k\<close> separators gives \<open>k + 1\<close> parts and the empty string
  gives one empty part.
\<close>

fun Split :: "string \<Rightarrow> char \<Rightarrow> string list" where
  "Split [] sep = [[]]"
| "Split (c # cs) sep =
     (if c = sep then [] # Split cs sep
      else (case Split cs sep of [] \<Rightarrow> [[c]] | p # ps \<Rightarrow> (c # p) # ps))"

text \<open>
  \<^verbatim>\<open>strconv.Atoi\<close> on a 64-bit platform, returning Go's pair of value and error.
  An optional sign is followed by at least one decimal digit; anything else is a syntax
  error with value 0. The digits are accumulated as an unsigned 64-bit number, and the
  scan stops with a range error as soon as that overflows; a value outside the signed
  64-bit range is a range error too, and the value returned with a range error is the
  nearest bound.
\<close>

datatype NumError = ErrSyntax | ErrRange

definition digit_val :: "char \<Rightarrow> int option" where
  "digit_val c =
     (let n = (of_char c :: int) in if 48 \<le> n \<and> n \<le> 57 then Some (n - 48) else None)"

definition maxUint64 :: int where
  "maxUint64 = 18446744073709551615"

definition maxInt64 :: int where
  "maxInt64 = 9223372036854775807"

fun ParseUint :: "int \<Rightarrow> string \<Rightarrow> NumError + int" where
  "ParseUint n [] = Inr n"
| "ParseUint n (c # cs) =
     (case digit_val c of
        None \<Rightarrow> Inl ErrSyntax
      | Some d \<Rightarrow> if n * 10 + d > maxUint64 then Inl ErrRange else ParseUint (n * 10 + d) cs)"

definition Atoi :: "string \<Rightarrow> int \<times> NumError option" where
  "Atoi s =
     (if s = [] then (0, Some ErrSyntax)
      else
        let neg = (hd s = CHR ''-'');
            body = (if hd s = CHR ''+'' \<or> hd s = CHR ''-'' then tl s else s)
        in if body = [] then (0, Some ErrSyntax)
           else
             (case ParseUint 0 body of
                Inl ErrSyntax \<Rightarrow> (0, Some ErrSyntax)
              | Inl ErrRange \<Rightarrow> (if neg then - maxInt64 - 1 else maxInt64, Some ErrRange)
              | Inr un \<Rightarrow>
                  if \<not> neg \<and> un > maxInt64 then (maxInt64, Some ErrRange)
                  else if neg \<and> un > maxInt64 + 1 then (- maxInt64 - 1, Some ErrRange)
                  else (if neg then - un else un, None)))"

section \<open>Verification against the database (the server with the prepared statement)\<close>

text \<open>
  \<^verbatim>\<open>stmtVerifyToken.QueryRow(hash).Scan(&tokenNumberFromFile)\<close> either stores the
  \<open>token_value\<close> of the row whose \<open>token_hash\<close> is the argument or returns an error,
  \<open>sql.ErrNoRows\<close> when there is no such row. The table is filled outside this
  repository, so the database is a parameter: a function from the hash to that outcome.
  The statement is the one \<open>prepareStatements\<close> prepared; a server whose statement
  failed to prepare is not covered.
\<close>

datatype sql_error = ErrNoRows | ErrDatabase

type_synonym token_db = "string \<Rightarrow> sql_error + int"

text \<open>
  The level that the loop bodies of both servers read off a token:
  \<^verbatim>\<open>levelStr := strings.TrimLeft(tokenHash[:3], "0"); level, _ := strconv.Atoi(levelStr)\<close>.
  The error of \<open>Atoi\<close> is dropped, so an unparsable prefix reads as the value \<open>Atoi\<close>
  returns beside its error. The slice needs three bytes; callers check that first.
\<close>

definition token_level :: "string \<Rightarrow> int" where
  "token_level tokenHash = fst (Atoi (TrimLeft (take 3 tokenHash) ''0''))"

text \<open>
  The body of the goroutine started for each token. The two slice expressions come
  first, the length check after them, then the query and the quota comparison. The
  result is the boolean stored at \<open>results[tokenHash]\<close>, or the panic.
\<close>

definition verifyToken_db :: "token_db \<Rightarrow> string \<Rightarrow> go_panic + bool" where
  "verifyToken_db db tokenHash =
     (if length tokenHash < 3 then Inl SliceBoundsOutOfRange
      else
        let level = token_level tokenHash;
            hash = drop 3 tokenHash
        in if length tokenHash \<noteq> 67 then Inr False
           else
             (case db hash of
                Inl err \<Rightarrow> Inr False
              | Inr tokenNumberFromFile \<Rightarrow>
                  Inr (0 < tokenNumberFromFile \<and> tokenNumberFromFile \<le> TokenMap_get level)))"

text \<open>
  The handler starts one goroutine per token and waits for all of them; each stores
  its boolean under its own token. The goroutines are run here one after the other in
  the order of the input (what they compute does not depend on one another); the
  unsynchronised write to the shared map is outside this model. A panic in a goroutine
  ends the process, so no result map is produced.
\<close>

fun verifyTokens_db ::
  "token_db \<Rightarrow> string list \<Rightarrow> (string \<rightharpoonup> bool) \<Rightarrow> go_panic + (string \<rightharpoonup> bool)" where
  "verifyTokens_db db [] results = Inr results"
| "verifyTokens_db db (tokenHash # rest) results =
     (case verifyToken_db db tokenHash of
        Inl p \<Rightarrow> Inl p
      | Inr b \<Rightarrow> verifyTokens_db db rest (results(tokenHash \<mapsto> b)))"

section \<open>Verification against the hash file (the server that scans \<open>token_hashes.txt\<close>)\<close>

text \<open>
  The file is the list of lines that \<open>bufio.Scanner\<close> yields for it. The inner loop
  reads lines until one splits at \<open>:\<close> into exactly two parts of which the second is
  the token without its first three bytes; it then stores the quota comparison of the
  first part (through \<open>Atoi\<close>, error dropped) and leaves the loop. \<open>None\<close> is the loop
  running off the end of the file with \<open>found\<close> still false.
\<close>

fun scan_lines :: "string list \<Rightarrow> string \<Rightarrow> int \<Rightarrow> bool option" where
  "scan_lines [] hash level = None"
| "scan_lines (line # rest) hash level =
     (let parts = Split line CHR '':'' in
      if length parts = 2 \<and> parts ! 1 = hash then
        (let tokenNumber = fst (Atoi (parts ! 0));
             maxTokenValue = TokenMap_get level
         in Some (0 < tokenNumber \<and> tokenNumber \<le> maxTokenValue))
      else scan_lines rest hash level)"

text \<open>
  One iteration of the outer loop. This server has no length check: the only thing that
  can stop an iteration is the slice expression \<open>tokenHash[:3]\<close>.
\<close>

definition verifyToken_file :: "string list \<Rightarrow> string \<Rightarrow> go_panic + bool" where
  "verifyToken_file lines tokenHash =
     (if length tokenHash < 3 then Inl SliceBoundsOutOfRange
      else
        let level = token_level tokenHash;
            hash = drop 3 tokenHash
        in (case scan_lines lines hash level of
              Some b \<Rightarrow> Inr b
            | None \<Rightarrow> Inr False))"

text \<open>
  The outer loop over the decoded request body. After each token the file is rewound
  and a new scanner made, so every token is searched from the first line; a panic of an
  iteration leaves the loop.
\<close>

fun verifyTokens_file ::
  "string list \<Rightarrow> string list \<Rightarrow> (string \<rightharpoonup> bool) \<Rightarrow> go_panic + (string \<rightharpoonup> bool)" where
  "verifyTokens_file lines [] results = Inr results"
| "verifyTokens_file lines (tokenHash # rest) results =
     (case verifyToken_file lines tokenHash of
        Inl p \<Rightarrow> Inl p
      | Inr b \<Rightarrow> verifyTokens_file lines rest (results(tokenHash \<mapsto> b)))"

text \<open>
  The handlers. The request body either decodes to a list of strings or the handler
  answers 400; the file server answers 500 when \<open>token_hashes.txt\<close> does not open
  (\<open>None\<close> for the file). What the handler writes back is the result map.
\<close>

datatype handler_error = StatusBadRequest | StatusInternalServerError | Panic go_panic

definition verifyTokensHandler_file ::
  "string list option \<Rightarrow> string list option \<Rightarrow> handler_error + (string \<rightharpoonup> bool)" where
  "verifyTokensHandler_file file body =
     (case body of
        None \<Rightarrow> Inl StatusBadRequest
      | Some input \<Rightarrow>
          (case file of
             None \<Rightarrow> Inl StatusInternalServerError
           | Some lines \<Rightarrow>
               (case verifyTokens_file lines input Map.empty of
                  Inl p \<Rightarrow> Inl (Panic p)
                | Inr results \<Rightarrow> Inr results)))"

definition verifyTokensHandler_db ::
  "token_db \<Rightarrow> string list option \<Rightarrow> handler_error + (string \<rightharpoonup> bool)" where
  "verifyTokensHandler_db db body =
     (case body of
        None \<Rightarrow> Inl StatusBadRequest
      | Some tokens \<Rightarrow>
          (case verifyTokens_db db tokens Map.empty of
             Inl p \<Rightarrow> Inl (Panic p)
           | Inr results \<Rightarrow> Inr results))"

section \<open>Lookup by hash in the hash file\<close>

text \<open>
  \<^verbatim>\<open>getTokenByHashFromFile(hash, filename)\<close> returns Go's pair of token number and
  error. The file system is a parameter: a name either does not open or gives the lines
  the scanner yields together with whether \<open>scanner.Err()\<close> is set once the scanner
  stops.
\<close>

datatype lookup_error =
  ErrOpeningFile | ErrInvalidTokenNumber NumError | ErrScanningFile | ErrHashNotFound


text \<open>The \<open>for scanner.Scan()\<close> loop; \<open>None\<close> is the loop ending without a return.\<close>

fun scan_for_hash :: "string list \<Rightarrow> string \<Rightarrow> (int \<times> lookup_error option) option" where
  "scan_for_hash [] hash = None"
| "scan_for_hash (line # rest) hash =
     (let parts = Split line CHR '':'' in
      if length parts = 2 \<and> parts ! 1 = hash then
        (case Atoi (parts ! 0) of
           (tokenNumber, Some err) \<Rightarrow> Some (0, Some (ErrInvalidTokenNumber err))
         | (tokenNumber, None) \<Rightarrow> Some (tokenNumber, None))
      else scan_for_hash rest hash)"


section \<open>Building the hash file\<close>

text \<open>
  \<^verbatim>\<open>calculateSHA256(input)\<close> is \<open>hex.EncodeToString\<close> of the SHA-256 digest of the
  input. The digest function (\<open>crypto/sha256\<close>) is a parameter \<open>sha256\<close>, from the input
  bytes to the digest bytes; the hexadecimal encoding is written out.
\<close>

definition hextable :: string where
  "hextable = ''0123456789abcdef''"

definition EncodeToString :: "string \<Rightarrow> string" where
  "EncodeToString src =
     concat (map (\<lambda>b. [hextable ! (of_char b div 16), hextable ! (of_char b mod 16)]) src)"

definition calculateSHA256 :: "(string \<Rightarrow> string) \<Rightarrow> string \<Rightarrow> string" where
  "calculateSHA256 sha256 input = EncodeToString (sha256 input)"

text \<open>\<^verbatim>\<open>strconv.Itoa\<close> on the token numbers, which are not negative.\<close>

definition digits :: string where
  "digits = ''0123456789''"

fun Itoa :: "nat \<Rightarrow> string" where
  "Itoa n = (if n < 10 then [digits ! n] else Itoa (n div 10) @ [digits ! (n mod 10)])"

declare Itoa.simps [simp del]

text \<open>
  The string a worker sends:
  \<^verbatim>\<open>fmt.Sprintf("%d:%s\n", tokenNumber, calculateSHA256(strconv.Itoa(tokenNumber)))\<close>.
\<close>

definition hash_record :: "(string \<Rightarrow> string) \<Rightarrow> nat \<Rightarrow> string" where
  "hash_record sha256 tokenNumber =
     Itoa tokenNumber @ '':'' @ calculateSHA256 sha256 (Itoa tokenNumber) @ [CHR 0x0A]"

definition concurrency :: nat where
  "concurrency = 100"

definition bufferSize :: nat where
  "bufferSize = 1024 * 1024"

definition channelBufferSize :: nat where
  "channelBufferSize = 1000"

text \<open>
  \<^verbatim>\<open>calculateAndStoreHashes(limit, filename)\<close> runs three kinds of goroutine: the
  function body itself, which starts the workers, waits for them, closes the channel and
  returns through its two deferred calls; one worker per token number; and the writer,
  which receives from the channel into the buffered writer until the channel is closed
  and empty. The state holds what they share and where each of them is. Writing to an
  open file succeeds, and the limit is not negative.
\<close>

datatype main_pc = AtLoop | AtClose | AtDeferredFlush | AtDeferredClose | Returned

record build_state =
  loop_i :: nat
  pc :: main_pc
  workers :: "nat list"
  hashChannel :: "string list"
  channel_closed :: bool
  writer_running :: bool
  writer_buf :: string
  writer_err :: bool
  file_bytes :: string
  file_closed :: bool

text \<open>
  \<open>loop_i\<close> is the loop variable; \<open>workers\<close> the token numbers of the workers that
  have been started and have not sent yet (each of them holds a slot of the semaphore
  and a count of the wait group); \<open>hashChannel\<close> the buffered elements, oldest first;
  \<open>writer_buf\<close> and \<open>writer_err\<close> the bytes and the sticky error of the
  \<open>bufio.Writer\<close>.
\<close>

definition build_start :: build_state where
  "build_start =
     \<lparr>loop_i = 0, pc = AtLoop, workers = [], hashChannel = [], channel_closed = False,
      writer_running = True, writer_buf = [], writer_err = False, file_bytes = [],
      file_closed = False\<rparr>"

text \<open>
  \<^verbatim>\<open>(*os.File).Write\<close> as the buffered writer sees it: a closed file returns an
  error, which the writer keeps.
\<close>

definition file_Write :: "string \<Rightarrow> build_state \<Rightarrow> build_state" where
  "file_Write p s =
     (if file_closed s then s\<lparr>writer_err := True\<rparr>
      else s\<lparr>file_bytes := file_bytes s @ p\<rparr>)"

text \<open>
  \<^verbatim>\<open>(*bufio.Writer).Flush\<close>: nothing after an error or on an empty buffer; otherwise
  the buffer goes to the file and is emptied, or stays as it is when the write fails.
\<close>

definition Flush :: "build_state \<Rightarrow> build_state" where
  "Flush s =
     (if writer_err s then s
      else if writer_buf s = [] then s
      else
        (let s' = file_Write (writer_buf s) s
         in if writer_err s' then s' else s'\<lparr>writer_buf := []\<rparr>))"

text \<open>
  \<^verbatim>\<open>(*bufio.Writer).WriteString\<close>: while the string is longer than the room left
  and no error is set, an empty buffer passes the whole string on to the file, and a
  buffer that holds bytes is filled up and flushed; what remains is copied into the
  buffer unless an error is set. After one fill-and-flush the buffer is empty, so the
  loop body runs at most twice.
\<close>

definition WriteString_step :: "string \<Rightarrow> build_state \<Rightarrow> string \<times> build_state" where
  "WriteString_step str s =
     (if length str > bufferSize - length (writer_buf s) \<and> \<not> writer_err s then
        (if writer_buf s = [] then ([], file_Write str s)
         else
           (let n = bufferSize - length (writer_buf s)
            in (drop n str, Flush (s\<lparr>writer_buf := writer_buf s @ take n str\<rparr>))))
      else (str, s))"

definition WriteString :: "string \<Rightarrow> build_state \<Rightarrow> build_state" where
  "WriteString str s =
     (let (str1, s1) = WriteString_step str s;
          (str2, s2) = WriteString_step str1 s1
      in if writer_err s2 then s2 else s2\<lparr>writer_buf := writer_buf s2 @ str2\<rparr>)"

text \<open>
  What one goroutine does next, as an action; the order in which the Go scheduler lets
  the goroutines act is a list of actions.

  \<^item> \<open>Spawn\<close>: one round of the \<open>for\<close> loop (\<open>wg.Add(1)\<close>, a slot of the semaphore,
    \<open>go\<close>); it needs a free slot.
  \<^item> \<open>Send i\<close>: worker \<open>i\<close> computes its string, sends it, and ends, giving back its
    slot and its count; the send needs room in the channel's buffer. (A send on a closed
    channel would panic; the lemma \<open>no_send_on_closed_channel\<close> shows that no run
    gets there.)
  \<^item> \<open>Wait\<close>: the loop has ended and \<open>wg.Wait()\<close> returns, which needs every worker
    to have ended.
  \<^item> \<open>CloseChannel\<close>: \<open>close(hashChannel)\<close>.
  \<^item> \<open>DeferredFlush\<close>, \<open>DeferredClose\<close>: after \<open>return nil\<close>, the deferred
    \<open>writer.Flush()\<close>, then the deferred \<open>file.Close()\<close>, after which the caller goes on.
  \<^item> \<open>Receive\<close>: the writer takes the oldest element and calls
    \<open>writer.WriteString\<close> (its error is only logged).
  \<^item> \<open>WriterExit\<close>: the channel is closed and empty, so the \<open>range\<close> loop ends and
    the writer calls \<open>writer.Flush()\<close>.

  \<open>exec\<close> is \<open>None\<close> when the action cannot happen in the state.
\<close>

datatype action =
  Spawn | Send nat | Wait | CloseChannel | DeferredFlush | DeferredClose | Receive | WriterExit

fun exec :: "(string \<Rightarrow> string) \<Rightarrow> nat \<Rightarrow> action \<Rightarrow> build_state \<Rightarrow> build_state option" where
  "exec sha256 limit Spawn s =
     (if pc s = AtLoop \<and> loop_i s \<le> limit \<and> length (workers s) < concurrency
      then Some (s\<lparr>workers := workers s @ [loop_i s], loop_i := Suc (loop_i s)\<rparr>)
      else None)"
| "exec sha256 limit (Send tokenNumber) s =
     (if tokenNumber \<in> set (workers s) \<and> length (hashChannel s) < channelBufferSize
      then Some (s\<lparr>hashChannel := hashChannel s @ [hash_record sha256 tokenNumber],
                    workers := remove1 tokenNumber (workers s)\<rparr>)
      else None)"
| "exec sha256 limit Wait s =
     (if pc s = AtLoop \<and> limit < loop_i s \<and> workers s = []
      then Some (s\<lparr>pc := AtClose\<rparr>)
      else None)"
| "exec sha256 limit CloseChannel s =
     (if pc s = AtClose then Some (s\<lparr>channel_closed := True, pc := AtDeferredFlush\<rparr>)
      else None)"
| "exec sha256 limit DeferredFlush s =
     (if pc s = AtDeferredFlush then Some ((Flush s)\<lparr>pc := AtDeferredClose\<rparr>)
      else None)"
| "exec sha256 limit DeferredClose s =
     (if pc s = AtDeferredClose then Some (s\<lparr>file_closed := True, pc := Returned\<rparr>)
      else None)"
| "exec sha256 limit Receive s =
     (if writer_running s then
        (case hashChannel s of
           [] \<Rightarrow> None
         | hash # rest \<Rightarrow> Some (WriteString hash (s\<lparr>hashChannel := rest\<rparr>)))
      else None)"
| "exec sha256 limit WriterExit s =
     (if writer_running s \<and> hashChannel s = [] \<and> channel_closed s
      then Some ((Flush s)\<lparr>writer_running := False\<rparr>)
      else None)"

fun run :: "(string \<Rightarrow> string) \<Rightarrow> nat \<Rightarrow> action list \<Rightarrow> build_state \<Rightarrow> build_state option" where
  "run sha256 limit [] s = Some s"
| "run sha256 limit (a # schedule) s =
     (case exec sha256 limit a s of
        None \<Rightarrow> None
      | Some s' \<Rightarrow> run sha256 limit schedule s')"

text \<open>The token numbers whose strings a schedule puts on the channel, in that order.\<close>

fun sends :: "action list \<Rightarrow> nat list" where
  "sends [] = []"
| "sends (Send i # schedule) = i # sends schedule"
| "sends (a # schedule) = sends schedule"

text \<open>
  A call of \<open>calculateAndStoreHashes\<close>. When \<open>os.Create\<close> fails the function
  returns that error at once. Otherwise the goroutines run as the schedule says, and the
  call has returned \<open>nil\<close> when the function body has gone through its deferred calls:
  the result is the state at the end of the schedule. \<open>None\<close> is a schedule that the
  program cannot follow or that does not bring the function body to its return.
\<close>

datatype build_error = ErrCreatingFile

definition calculateAndStoreHashes ::
  "(string \<Rightarrow> string) \<Rightarrow> nat \<Rightarrow> bool \<Rightarrow> action list \<Rightarrow> (build_error + build_state) option" where
  "calculateAndStoreHashes sha256 limit created schedule =
     (if \<not> created then Some (Inl ErrCreatingFile)
      else
        (case run sha256 limit schedule build_start of
           None \<Rightarrow> None
         | Some s \<Rightarrow> if pc s = Returned then Some (Inr s) else None))"

text \<open>
  The lines \<open>bufio.Scanner\<close> yields for the bytes of a file: the pieces between line
  feeds, a final piece without line feed only when it is not empty, each without a
  trailing carriage return.
\<close>

definition dropCR :: "string \<Rightarrow> string" where
  "dropCR line = (if line \<noteq> [] \<and> last line = CHR 0x0D then butlast line else line)"

fun ScanLines_acc :: "string \<Rightarrow> string \<Rightarrow> string list" where
  "ScanLines_acc acc [] = (if acc = [] then [] else [dropCR (rev acc)])"
| "ScanLines_acc acc (c # cs) =
     (if c = CHR 0x0A then dropCR (rev acc) # ScanLines_acc [] cs
      else ScanLines_acc (c # acc) cs)"

definition ScanLines :: "string \<Rightarrow> string list" where
  "ScanLines data = ScanLines_acc [] data"

section \<open>Properties of the quota table\<close>

lemma TokenMap_keys: "map fst TokenMap = [0..78]"
  unfolding TokenMap_def by code_simp

lemma TokenMap_get_outside: "level \<notin> {0..78} \<Longrightarrow> TokenMap_get level = 0"
proof -
  assume "level \<notin> {0..78}"
  then have "level \<notin> set (map fst TokenMap)" by (simp add: TokenMap_keys)
  then have "map_of TokenMap level = None" by (simp add: map_of_eq_None_iff)
  then show ?thesis by (simp add: TokenMap_get_def)
qed

lemma TokenMap_get_0: "TokenMap_get 0 = 0"
  by code_simp

lemma TokenMap_get_no_quota: "level \<notin> {1..78} \<Longrightarrow> TokenMap_get level = 0"
proof (cases "level = 0")
  case True
  then show ?thesis by (simp add: TokenMap_get_0)
next
  case False
  assume "level \<notin> {1..78}"
  with False have "level \<notin> {0..78}" by auto
  then show ?thesis by (rule TokenMap_get_outside)
qed

lemma TokenMap_consecutive:
  "list_all (\<lambda>l. TokenMap_get (l + 1) < TokenMap_get l) [1..77]"
  by code_simp

lemma TokenMap_bounds:
  "list_all (\<lambda>l. 17602 \<le> TokenMap_get l \<and> TokenMap_get l \<le> 5000000) [1..78]"
  by code_simp

lemma TokenMap_step: "1 \<le> l \<Longrightarrow> l \<le> 77 \<Longrightarrow> TokenMap_get (l + 1) < TokenMap_get l"
  using TokenMap_consecutive by (simp add: list_all_iff)

lemma TokenMap_range: "1 \<le> l \<Longrightarrow> l \<le> 78 \<Longrightarrow> 17602 \<le> TokenMap_get l \<and> TokenMap_get l \<le> 5000000"
  using TokenMap_bounds by (simp add: list_all_iff)

lemma TokenMap_decreasing_nat:
  "1 \<le> l1 \<Longrightarrow> l1 + int (Suc k) \<le> 78 \<Longrightarrow> TokenMap_get (l1 + int (Suc k)) < TokenMap_get l1"
proof (induction k)
  case 0
  then show ?case using TokenMap_step [of l1] by simp
next
  case (Suc k)
  then have IH: "TokenMap_get (l1 + int (Suc k)) < TokenMap_get l1" by simp
  have "TokenMap_get (l1 + int (Suc k) + 1) < TokenMap_get (l1 + int (Suc k))"
    using Suc.prems by (intro TokenMap_step) auto
  with IH show ?case by (simp add: add.assoc)
qed

lemma TokenMap_decreasing:
  assumes "1 \<le> l1" "l1 < l2" "l2 \<le> 78"
  shows "TokenMap_get l2 < TokenMap_get l1"
proof -
  obtain k where k: "l2 = l1 + int (Suc k)"
    using assms(2) by (metis zless_iff_Suc_zadd)
  with assms show ?thesis using TokenMap_decreasing_nat [of l1 k] by simp
qed

text \<open>
  Claim C9. The quota table is strictly decreasing on the levels 1 to 78: of two levels
  in that range the higher one has the smaller quota. Level 1 has quota 5000000, which
  no level exceeds, and level 78 has quota 17602, the least quota that is not zero.
\<close>

theorem quota_strictly_decreasing:
  "(\<forall>l1 l2. 1 \<le> l1 \<and> l1 < l2 \<and> l2 \<le> 78 \<longrightarrow> TokenMap_get l2 < TokenMap_get l1)
   \<and> TokenMap_get 1 = 5000000 \<and> TokenMap_get 78 = 17602
   \<and> (\<forall>l. TokenMap_get l \<le> 5000000)
   \<and> (\<forall>l. TokenMap_get l \<noteq> 0 \<longrightarrow> 17602 \<le> TokenMap_get l)"
proof (intro conjI allI impI)
  fix l1 l2 :: int
  assume "1 \<le> l1 \<and> l1 < l2 \<and> l2 \<le> 78"
  then show "TokenMap_get l2 < TokenMap_get l1" by (simp add: TokenMap_decreasing)
next
  show "TokenMap_get 1 = 5000000" by code_simp
next
  show "TokenMap_get 78 = 17602" by code_simp
next
  fix l :: int
  show "TokenMap_get l \<le> 5000000"
  proof (cases "l \<in> {1..78}")
    case True
    then show ?thesis using TokenMap_range [of l] by simp
  next
    case False
    then show ?thesis by (simp add: TokenMap_get_no_quota)
  qed
next
  fix l :: int
  assume nz: "TokenMap_get l \<noteq> 0"
  then have "l \<in> {1..78}" using TokenMap_get_no_quota by blast
  then show "17602 \<le> TokenMap_get l" using TokenMap_range [of l] by simp
qed

theorem quota_strictly_decreasing_witness:
  "(1::int) \<le> 5 \<and> (5::int) < 60 \<and> (60::int) \<le> 78 \<and> TokenMap_get 60 < TokenMap_get 5
   \<and> TokenMap_get 60 \<noteq> 0 \<and> 17602 \<le> TokenMap_get 60"
proof -
  have nz: "TokenMap_get 60 \<noteq> 0" by code_simp
  from quota_strictly_decreasing have "TokenMap_get 60 < TokenMap_get 5" by simp
  moreover from quota_strictly_decreasing nz have "17602 \<le> TokenMap_get 60" by blast
  ultimately show ?thesis using nz by simp
qed

section \<open>Levels without quota\<close>

lemma TokenMap_get_le: "TokenMap_get l \<le> 5000000"
proof (cases "l \<in> {1..78}")
  case True
  then show ?thesis using TokenMap_range [of l] by simp
next
  case False
  then show ?thesis by (simp add: TokenMap_get_no_quota)
qed

lemma Atoi_error_value:
  "Atoi s = (v, Some e) \<Longrightarrow> v = 0 \<or> v = maxInt64 \<or> v = - maxInt64 - 1"
  unfolding Atoi_def
  by (auto simp: Let_def split: if_splits sum.splits NumError.splits)

lemma Atoi_error_outside_quota:
  assumes "Atoi s = (v, Some e)"
  shows "\<not> (0 < v \<and> v \<le> TokenMap_get level)"
proof -
  have "TokenMap_get level < maxInt64"
    using TokenMap_get_le [of level] by (simp add: maxInt64_def)
  moreover have "(0::int) < maxInt64" by (simp add: maxInt64_def)
  ultimately show ?thesis using Atoi_error_value [OF assms] by auto
qed

lemma Atoi_error_level: "snd (Atoi s) \<noteq> None \<Longrightarrow> TokenMap_get (fst (Atoi s)) = 0"
proof -
  assume "snd (Atoi s) \<noteq> None"
  then obtain v e where a: "Atoi s = (v, Some e)" by (cases "Atoi s") auto
  have "v \<notin> {1..78}"
    using Atoi_error_value [OF a] by (auto simp: maxInt64_def)
  then show ?thesis using a by (simp add: TokenMap_get_no_quota)
qed

lemma scan_lines_scan_for_hash:
  "scan_lines lines hash level =
     (case scan_for_hash lines hash of
        None \<Rightarrow> None
      | Some (n, None) \<Rightarrow> Some (0 < n \<and> n \<le> TokenMap_get level)
      | Some (n, Some e) \<Rightarrow> Some False)"
proof (induction lines)
  case Nil
  then show ?case by simp
next
  case (Cons line rest)
  show ?case
  proof (cases "length (Split line CHR '':'') = 2 \<and> Split line CHR '':'' ! 1 = hash")
    case False
    then show ?thesis using Cons.IH by (auto simp: Let_def)
  next
    case True
    obtain v r where a: "Atoi (Split line CHR '':'' ! 0) = (v, r)" by (cases "Atoi (Split line CHR '':'' ! 0)")
    show ?thesis
    proof (cases r)
      case None
      with True a show ?thesis by (simp add: Let_def)
    next
      case (Some e)
      with a have "\<not> (0 < v \<and> v \<le> TokenMap_get level)"
        using Atoi_error_outside_quota by blast
      with True a Some show ?thesis by (simp add: Let_def)
    qed
  qed
qed

lemma scan_lines_no_quota:
  "TokenMap_get level = 0 \<Longrightarrow> scan_lines lines hash level \<noteq> Some True"
  by (induction lines) (auto simp: Let_def)

lemma verifyToken_db_no_quota:
  "3 \<le> length t \<Longrightarrow> TokenMap_get (token_level t) = 0 \<Longrightarrow> verifyToken_db db t = Inr False"
  by (auto simp: verifyToken_db_def Let_def split: sum.splits)

lemma verifyToken_file_no_quota:
  assumes "3 \<le> length t" "TokenMap_get (token_level t) = 0"
  shows "verifyToken_file lines t = Inr False"
proof -
  have "scan_lines lines (drop 3 t) (token_level t) \<noteq> Some True"
    using assms(2) by (rule scan_lines_no_quota)
  then show ?thesis using assms(1)
    by (auto simp: verifyToken_file_def Let_def split: option.splits)
qed

text \<open>
  Claim C4. A level outside 1 to 78, that is level 0 and every level outside 0 to 78,
  reads the quota 0 from the table, and a token that carries such a level is verified
  false by both servers, whatever identifier the index gives for its hash.
\<close>

theorem level_without_quota_rejected:
  "(level \<notin> {1..78} \<longrightarrow> TokenMap_get level = 0)
   \<and> (3 \<le> length tokenHash \<and> token_level tokenHash \<notin> {1..78} \<longrightarrow>
        verifyToken_db db tokenHash = Inr False \<and> verifyToken_file lines tokenHash = Inr False)"
  by (simp add: TokenMap_get_no_quota verifyToken_db_no_quota verifyToken_file_no_quota)

lemma level_099: "token_level ''099ef2d127de37b942baad06145e54b0c619a1f22327b2ebbcfbec78f5564afe39d'' = 99"
  by code_simp

lemma level_000: "token_level ''000ef2d127de37b942baad06145e54b0c619a1f22327b2ebbcfbec78f5564afe39d'' = 0"
  by code_simp

theorem level_without_quota_rejected_witness:
  "TokenMap_get 99 = 0 \<and> TokenMap_get 0 = 0
   \<and> verifyToken_db (\<lambda>hash. Inr 5)
        ''099ef2d127de37b942baad06145e54b0c619a1f22327b2ebbcfbec78f5564afe39d'' = Inr False
   \<and> verifyToken_file [''5:ef2d127de37b942baad06145e54b0c619a1f22327b2ebbcfbec78f5564afe39d'']
        ''000ef2d127de37b942baad06145e54b0c619a1f22327b2ebbcfbec78f5564afe39d'' = Inr False"
proof -
  have "TokenMap_get 99 = 0"
    using level_without_quota_rejected [of 99] by simp
  moreover have "TokenMap_get 0 = 0"
    using level_without_quota_rejected [of 0] by simp
  moreover have "verifyToken_db (\<lambda>hash. Inr 5)
        ''099ef2d127de37b942baad06145e54b0c619a1f22327b2ebbcfbec78f5564afe39d'' = Inr False"
    using level_without_quota_rejected
      [of _ "''099ef2d127de37b942baad06145e54b0c619a1f22327b2ebbcfbec78f5564afe39d''"]
    by (simp add: level_099)
  moreover have "verifyToken_file [''5:ef2d127de37b942baad06145e54b0c619a1f22327b2ebbcfbec78f5564afe39d'']
        ''000ef2d127de37b942baad06145e54b0c619a1f22327b2ebbcfbec78f5564afe39d'' = Inr False"
    using level_without_quota_rejected
      [of _ "''000ef2d127de37b942baad06145e54b0c619a1f22327b2ebbcfbec78f5564afe39d''"]
    by (simp add: level_000)
  ultimately show ?thesis by simp
qed

section \<open>Verification of a well-formed token\<close>

lemma verifyToken_db_resolved:
  "length t = 67 \<Longrightarrow> db (drop 3 t) = Inr n \<Longrightarrow>
   verifyToken_db db t = Inr (0 < n \<and> n \<le> TokenMap_get (token_level t))"
  by (simp add: verifyToken_db_def Let_def)

lemma verifyToken_db_unresolved:
  "3 \<le> length t \<Longrightarrow> db (drop 3 t) = Inl e \<Longrightarrow> verifyToken_db db t = Inr False"
  by (simp add: verifyToken_db_def Let_def)

lemma verifyToken_file_resolved:
  "3 \<le> length t \<Longrightarrow> scan_for_hash lines (drop 3 t) = Some (n, None) \<Longrightarrow>
   verifyToken_file lines t = Inr (0 < n \<and> n \<le> TokenMap_get (token_level t))"
  by (simp add: verifyToken_file_def Let_def scan_lines_scan_for_hash)

lemma verifyToken_file_unresolved:
  "3 \<le> length t \<Longrightarrow> scan_for_hash lines (drop 3 t) = None \<Longrightarrow>
   verifyToken_file lines t = Inr False"
  by (simp add: verifyToken_file_def Let_def scan_lines_scan_for_hash)

text \<open>
  Claim C1, as amended. For a token of 67 bytes whose hash the index resolves to the
  identifier \<open>n\<close> (the database returns a row, or the file has a first matching line
  that parses), verification is true exactly when \<open>0 < n\<close> and \<open>n\<close> is at most the quota
  of the token's level. In particular, with \<open>Q\<close> the quota of the level: identifier
  \<open>Q\<close> verifies true when \<open>Q\<close> is positive, identifier \<open>Q + 1\<close> verifies false,
  identifier 0 verifies false, and a hash the index does not hold verifies false.
\<close>

theorem verify_true_iff_within_quota:
  assumes "length tokenHash = 67"
  shows
    "(db (drop 3 tokenHash) = Inr n \<longrightarrow>
        verifyToken_db db tokenHash = Inr (0 < n \<and> n \<le> TokenMap_get (token_level tokenHash)))
     \<and> (scan_for_hash lines (drop 3 tokenHash) = Some (n, None) \<longrightarrow>
        verifyToken_file lines tokenHash = Inr (0 < n \<and> n \<le> TokenMap_get (token_level tokenHash)))
     \<and> (0 < TokenMap_get (token_level tokenHash)
          \<and> db (drop 3 tokenHash) = Inr (TokenMap_get (token_level tokenHash)) \<longrightarrow>
        verifyToken_db db tokenHash = Inr True)
     \<and> (db (drop 3 tokenHash) = Inr (TokenMap_get (token_level tokenHash) + 1) \<longrightarrow>
        verifyToken_db db tokenHash = Inr False)
     \<and> (db (drop 3 tokenHash) = Inr 0 \<longrightarrow> verifyToken_db db tokenHash = Inr False)
     \<and> (scan_for_hash lines (drop 3 tokenHash) = Some (0, None) \<longrightarrow>
        verifyToken_file lines tokenHash = Inr False)
     \<and> (db (drop 3 tokenHash) = Inl err \<longrightarrow> verifyToken_db db tokenHash = Inr False)
     \<and> (scan_for_hash lines (drop 3 tokenHash) = None \<longrightarrow>
        verifyToken_file lines tokenHash = Inr False)"
proof -
  from assms have len3: "3 \<le> length tokenHash" by simp
  show ?thesis
    using assms len3
    by (simp add: verifyToken_db_resolved verifyToken_db_unresolved
        verifyToken_file_resolved verifyToken_file_unresolved)
qed

lemma level_005: "token_level ''005e20177cfd26feff30fc12126aa08d53344c7450370136372a53974414a71d1c1'' = 5"
  by code_simp

lemma quota_5: "TokenMap_get 5 = 2079134"
  by code_simp

lemma scan_5: "scan_for_hash [''2079134:e20177cfd26feff30fc12126aa08d53344c7450370136372a53974414a71d1c1'']
   ''e20177cfd26feff30fc12126aa08d53344c7450370136372a53974414a71d1c1'' = Some (2079134, None)"
  by code_simp

theorem verify_true_iff_within_quota_witness:
  "verifyToken_db (\<lambda>hash. Inr 2079134)
      ''005e20177cfd26feff30fc12126aa08d53344c7450370136372a53974414a71d1c1'' = Inr True
   \<and> verifyToken_db (\<lambda>hash. Inr 2079135)
      ''005e20177cfd26feff30fc12126aa08d53344c7450370136372a53974414a71d1c1'' = Inr False
   \<and> verifyToken_db (\<lambda>hash. Inr 0)
      ''005e20177cfd26feff30fc12126aa08d53344c7450370136372a53974414a71d1c1'' = Inr False
   \<and> verifyToken_db (\<lambda>hash. Inl ErrNoRows)
      ''005e20177cfd26feff30fc12126aa08d53344c7450370136372a53974414a71d1c1'' = Inr False
   \<and> verifyToken_file
      [''2079134:e20177cfd26feff30fc12126aa08d53344c7450370136372a53974414a71d1c1'']
      ''005e20177cfd26feff30fc12126aa08d53344c7450370136372a53974414a71d1c1'' = Inr True
   \<and> verifyToken_file []
      ''005e20177cfd26feff30fc12126aa08d53344c7450370136372a53974414a71d1c1'' = Inr False"
proof -
  let ?t = "''005e20177cfd26feff30fc12126aa08d53344c7450370136372a53974414a71d1c1''"
  let ?l = "[''2079134:e20177cfd26feff30fc12126aa08d53344c7450370136372a53974414a71d1c1'']"
  have len: "length ?t = 67" by simp
  have "verifyToken_db (\<lambda>hash. Inr 2079134) ?t = Inr True"
    using verify_true_iff_within_quota [OF len, of "\<lambda>hash. Inr 2079134" 2079134]
    by (simp add: level_005 quota_5)
  moreover have "verifyToken_db (\<lambda>hash. Inr 2079135) ?t = Inr False"
    using verify_true_iff_within_quota [OF len, of "\<lambda>hash. Inr 2079135" 2079135]
    by (simp add: level_005 quota_5)
  moreover have "verifyToken_db (\<lambda>hash. Inr 0) ?t = Inr False"
    using verify_true_iff_within_quota [OF len, of "\<lambda>hash. Inr 0" 0]
    by simp
  moreover have "verifyToken_db (\<lambda>hash. Inl ErrNoRows) ?t = Inr False"
    using verify_true_iff_within_quota [OF len, of "\<lambda>hash. Inl ErrNoRows" _ _ ErrNoRows]
    by simp
  moreover have "verifyToken_file ?l ?t = Inr True"
    using verify_true_iff_within_quota [OF len, of _ 2079134 ?l] scan_5
    by (simp add: level_005 quota_5)
  moreover have "verifyToken_file [] ?t = Inr False"
    using verify_true_iff_within_quota [OF len, of _ _ "[]"]
    by simp
  ultimately show ?thesis by simp
qed

text \<open>
  Claim C1 as it is written says that identifier \<open>Q\<close> verifies true at a level with
  quota \<open>Q\<close>. Level 0 has quota 0: the token below is 67 bytes long, its level reads the
  quota 0, the file holds its hash with identifier 0, and it verifies false.
\<close>

theorem quota_identifier_at_level_zero_rejected:
  "length ''0005feceb66ffc86f38d952786c6d696c79c2dbc239dd4e91b46729d73a27fb57e9'' = 67
   \<and> TokenMap_get (token_level
        ''0005feceb66ffc86f38d952786c6d696c79c2dbc239dd4e91b46729d73a27fb57e9'') = 0
   \<and> scan_for_hash [''0:5feceb66ffc86f38d952786c6d696c79c2dbc239dd4e91b46729d73a27fb57e9'']
        (drop 3 ''0005feceb66ffc86f38d952786c6d696c79c2dbc239dd4e91b46729d73a27fb57e9'')
        = Some (0, None)
   \<and> verifyToken_file [''0:5feceb66ffc86f38d952786c6d696c79c2dbc239dd4e91b46729d73a27fb57e9'']
        ''0005feceb66ffc86f38d952786c6d696c79c2dbc239dd4e91b46729d73a27fb57e9'' = Inr False"
  by code_simp

section \<open>Malformed tokens\<close>

lemma verifyToken_db_returns: "3 \<le> length t \<Longrightarrow> \<exists>b. verifyToken_db db t = Inr b"
  by (cases "db (drop 3 t)") (auto simp: verifyToken_db_def Let_def)

lemma verifyToken_file_returns: "3 \<le> length t \<Longrightarrow> \<exists>b. verifyToken_file lines t = Inr b"
  by (cases "scan_lines lines (drop 3 t) (token_level t)") (auto simp: verifyToken_file_def Let_def)

lemma verifyToken_db_panics: "length t < 3 \<Longrightarrow> verifyToken_db db t = Inl SliceBoundsOutOfRange"
  by (simp add: verifyToken_db_def)

lemma verifyToken_file_panics: "length t < 3 \<Longrightarrow> verifyToken_file lines t = Inl SliceBoundsOutOfRange"
  by (simp add: verifyToken_file_def)

lemma verifyToken_db_wrong_length:
  "3 \<le> length t \<Longrightarrow> length t \<noteq> 67 \<Longrightarrow> verifyToken_db db t = Inr False"
  by (simp add: verifyToken_db_def Let_def)

lemma unparsable_level_rejected:
  assumes "3 \<le> length t" "snd (Atoi (TrimLeft (take 3 t) ''0'')) \<noteq> None"
  shows "verifyToken_db db t = Inr False" and "verifyToken_file lines t = Inr False"
proof -
  have "TokenMap_get (token_level t) = 0"
    unfolding token_level_def using assms(2) by (rule Atoi_error_level)
  with assms(1) show "verifyToken_db db t = Inr False" and "verifyToken_file lines t = Inr False"
    by (simp_all add: verifyToken_db_no_quota verifyToken_file_no_quota)
qed

text \<open>
  \<open>Atoi\<close> accepts a sign, so a prefix such as \<open>+05\<close> parses, as level 5, and a
  prefix such as \<open>0-5\<close> parses as level \<open>-5\<close>, which has no quota.
\<close>

lemma signed_level_prefix:
  "token_level ''+05ad57366865126e55649ecb23ae1d48887544976efea46a48eb5d85a6eeb4d306'' = 5"
  "verifyToken_file [''100:ad57366865126e55649ecb23ae1d48887544976efea46a48eb5d85a6eeb4d306'']
     ''+05ad57366865126e55649ecb23ae1d48887544976efea46a48eb5d85a6eeb4d306'' = Inr True"
  "token_level ''0-5ad57366865126e55649ecb23ae1d48887544976efea46a48eb5d85a6eeb4d306'' = - 5"
  "verifyToken_file [''100:ad57366865126e55649ecb23ae1d48887544976efea46a48eb5d85a6eeb4d306'']
     ''0-5ad57366865126e55649ecb23ae1d48887544976efea46a48eb5d85a6eeb4d306'' = Inr False"
  by code_simp+

text \<open>
  Claim C2 says that verification of any string ends with a boolean and never with a
  panic. The lemmas above give that for every string of at least three bytes. On the
  empty string the slice expression \<open>tokenHash[:3]\<close> panics in both servers; in the
  database server it is evaluated before the length check.
\<close>

theorem short_token_panics:
  "verifyToken_db db [] = Inl SliceBoundsOutOfRange
   \<and> verifyToken_file lines [] = Inl SliceBoundsOutOfRange"
  by (simp add: verifyToken_db_def verifyToken_file_def)

text \<open>
  Claim C3 says that a token that is not 67 bytes long, or whose level prefix does not
  parse, verifies false without an error for the batch. The lemmas above give that for
  the unparsable prefix in both servers, and for the wrong length in the database
  server when the token has at least three bytes. A token of two bytes panics in the
  database server, and the file server, which has no length check, verifies a token of
  six bytes true when the file holds the bytes after its prefix.
\<close>

theorem wrong_length_not_rejected:
  "verifyToken_db db ''ab'' = Inl SliceBoundsOutOfRange
   \<and> verifyToken_file [''5:abc''] ''001abc'' = Inr True"
proof
  show "verifyToken_db db ''ab'' = Inl SliceBoundsOutOfRange"
    by (simp add: verifyToken_db_def)
  show "verifyToken_file [''5:abc''] ''001abc'' = Inr True"
    by code_simp
qed

subsection \<open>The batch\<close>

lemma verifyTokens_db_result:
  "\<forall>t \<in> set tokens. 3 \<le> length t \<Longrightarrow>
   verifyTokens_db db tokens results =
     Inr (\<lambda>t. if t \<in> set tokens then Some (projr (verifyToken_db db t)) else results t)"
proof (induction tokens arbitrary: results)
  case Nil
  then show ?case by simp
next
  case (Cons t rest)
  then obtain b where b: "verifyToken_db db t = Inr b"
    using verifyToken_db_returns [of t db] by auto
  have "verifyTokens_db db rest (results(t \<mapsto> b)) =
     Inr (\<lambda>x. if x \<in> set rest then Some (projr (verifyToken_db db x)) else (results(t \<mapsto> b)) x)"
    using Cons by simp
  with b show ?case by (auto simp: fun_eq_iff)
qed

lemma verifyTokens_file_result:
  "\<forall>t \<in> set input. 3 \<le> length t \<Longrightarrow>
   verifyTokens_file lines input results =
     Inr (\<lambda>t. if t \<in> set input then Some (projr (verifyToken_file lines t)) else results t)"
proof (induction input arbitrary: results)
  case Nil
  then show ?case by simp
next
  case (Cons t rest)
  then obtain b where b: "verifyToken_file lines t = Inr b"
    using verifyToken_file_returns [of t lines] by auto
  have "verifyTokens_file lines rest (results(t \<mapsto> b)) =
     Inr (\<lambda>x. if x \<in> set rest then Some (projr (verifyToken_file lines x)) else (results(t \<mapsto> b)) x)"
    using Cons by simp
  with b show ?case by (auto simp: fun_eq_iff)
qed

lemma verifyTokens_file_panics:
  "\<exists>t \<in> set input. length t < 3 \<Longrightarrow> verifyTokens_file lines input results = Inl SliceBoundsOutOfRange"
proof (induction input arbitrary: results)
  case Nil
  then show ?case by simp
next
  case (Cons t rest)
  show ?case
  proof (cases "length t < 3")
    case True
    then show ?thesis by (simp add: verifyToken_file_panics)
  next
    case False
    then obtain b where b: "verifyToken_file lines t = Inr b"
      using verifyToken_file_returns [of t lines] by auto
    from False Cons.prems have "\<exists>t \<in> set rest. length t < 3" by auto
    then show ?thesis using Cons.IH b by simp
  qed
qed

lemma verifyTokensHandler_file_entries:
  assumes "\<forall>t \<in> set input. 3 \<le> length t"
  shows "\<exists>results. verifyTokensHandler_file (Some lines) (Some input) = Inr results
     \<and> dom results = set input
     \<and> (\<forall>t \<in> set input. verifyToken_file lines t = Inr (the (results t)))"
proof -
  let ?r = "\<lambda>t. if t \<in> set input then Some (projr (verifyToken_file lines t)) else None"
  have "verifyTokensHandler_file (Some lines) (Some input) = Inr ?r"
    using verifyTokens_file_result [OF assms, of lines Map.empty]
    by (simp add: verifyTokensHandler_file_def)
  moreover have "dom ?r = set input" by (auto simp: dom_def)
  moreover have "\<forall>t \<in> set input. verifyToken_file lines t = Inr (the (?r t))"
  proof
    fix t assume t: "t \<in> set input"
    with assms have "3 \<le> length t" by simp
    then obtain b where "verifyToken_file lines t = Inr b"
      using verifyToken_file_returns by blast
    with t show "verifyToken_file lines t = Inr (the (?r t))" by simp
  qed
  ultimately show ?thesis by blast
qed

text \<open>
  Claim C8 says that for every batch the result holds exactly one entry per input
  token, under the token itself, with the value verification computes for it. The
  lemmas above give that for every batch whose tokens have at least three bytes each.
  A batch that holds the empty string ends in the panic of that token, and no result
  map is written.
\<close>

theorem batch_with_short_token_panics:
  "verifyTokensHandler_file (Some lines) (Some [[]]) = Inl (Panic SliceBoundsOutOfRange)
   \<and> verifyTokensHandler_db db (Some [[]]) = Inl (Panic SliceBoundsOutOfRange)"
  by (simp add: verifyTokensHandler_file_def verifyTokensHandler_db_def
      verifyToken_file_def verifyToken_db_def)

section \<open>Lookup in the hash file\<close>









section \<open>The build\<close>

subsection \<open>What every schedule keeps\<close>

lemma Flush_closed_file: "file_closed s \<Longrightarrow> file_bytes (Flush s) = file_bytes s \<and> file_closed (Flush s)"
  by (simp add: Flush_def file_Write_def Let_def)

lemma WriteString_step_closed_file:
  "file_closed s \<Longrightarrow> WriteString_step str s = (str', s') \<Longrightarrow>
   file_bytes s' = file_bytes s \<and> file_closed s'"
  by (auto simp: WriteString_step_def file_Write_def Let_def Flush_def split: if_splits)

lemma WriteString_closed_file:
  assumes "file_closed s"
  shows "file_bytes (WriteString str s) = file_bytes s \<and> file_closed (WriteString str s)"
proof -
  obtain str1 s1 where 1: "WriteString_step str s = (str1, s1)" by (cases "WriteString_step str s")
  obtain str2 s2 where 2: "WriteString_step str1 s1 = (str2, s2)" by (cases "WriteString_step str1 s1")
  from WriteString_step_closed_file [OF assms 1]
  have s1: "file_bytes s1 = file_bytes s" "file_closed s1" by simp_all
  from WriteString_step_closed_file [OF s1(2) 2] s1
  have "file_bytes s2 = file_bytes s" "file_closed s2" by simp_all
  with 1 2 show ?thesis by (simp add: WriteString_def)
qed

lemma Flush_control:
  "loop_i (Flush s) = loop_i s \<and> pc (Flush s) = pc s \<and> workers (Flush s) = workers s
   \<and> hashChannel (Flush s) = hashChannel s \<and> channel_closed (Flush s) = channel_closed s
   \<and> writer_running (Flush s) = writer_running s"
  by (simp add: Flush_def file_Write_def Let_def)

lemma WriteString_step_control:
  "WriteString_step str s = (str', s') \<Longrightarrow>
   loop_i s' = loop_i s \<and> pc s' = pc s \<and> workers s' = workers s
   \<and> hashChannel s' = hashChannel s \<and> channel_closed s' = channel_closed s
   \<and> writer_running s' = writer_running s"
  by (auto simp: WriteString_step_def file_Write_def Let_def Flush_control split: if_splits)

lemma WriteString_control:
  "loop_i (WriteString str s) = loop_i s \<and> pc (WriteString str s) = pc s
   \<and> workers (WriteString str s) = workers s
   \<and> hashChannel (WriteString str s) = hashChannel s
   \<and> channel_closed (WriteString str s) = channel_closed s
   \<and> writer_running (WriteString str s) = writer_running s"
proof -
  obtain str1 s1 where 1: "WriteString_step str s = (str1, s1)" by (cases "WriteString_step str s")
  obtain str2 s2 where 2: "WriteString_step str1 s1 = (str2, s2)" by (cases "WriteString_step str1 s1")
  from WriteString_step_control [OF 1] WriteString_step_control [OF 2] 1 2
  show ?thesis by (simp add: WriteString_def)
qed

lemma exec_workers:
  assumes "exec sha256 limit a s = Some s'"
  shows "loop_i s \<le> loop_i s'
     \<and> mset (sends [a]) + mset (workers s') = mset (workers s) + mset [loop_i s..<loop_i s']"
proof (cases a)
  case Receive
  with assms show ?thesis
    by (auto simp: WriteString_control split: if_splits list.splits)
qed (use assms in \<open>auto simp: Flush_control split: if_splits\<close>)

lemma sends_Cons: "sends (a # schedule) = sends [a] @ sends schedule"
  by (cases a) simp_all

lemma run_workers:
  "run sha256 limit schedule s = Some s' \<Longrightarrow>
   loop_i s \<le> loop_i s'
   \<and> mset (sends schedule) + mset (workers s') = mset (workers s) + mset [loop_i s..<loop_i s']"
proof (induction schedule arbitrary: s)
  case Nil
  then show ?case by simp
next
  case (Cons a schedule)
  then obtain s1 where 1: "exec sha256 limit a s = Some s1"
    and 2: "run sha256 limit schedule s1 = Some s'"
    by (auto split: option.splits)
  from exec_workers [OF 1] have e: "loop_i s \<le> loop_i s1"
    "mset (sends [a]) + mset (workers s1) = mset (workers s) + mset [loop_i s..<loop_i s1]"
    by simp_all
  from Cons.IH [OF 2] have r: "loop_i s1 \<le> loop_i s'"
    "mset (sends schedule) + mset (workers s') = mset (workers s1) + mset [loop_i s1..<loop_i s']"
    by simp_all
  have split: "[loop_i s..<loop_i s'] = [loop_i s..<loop_i s1] @ [loop_i s1..<loop_i s']"
    using e(1) r(1) by (metis le_Suc_ex upt_add_eq_append)
  have "mset (sends (a # schedule)) + mset (workers s')
      = mset (sends [a]) + (mset (sends schedule) + mset (workers s'))"
    by (subst sends_Cons) (simp add: ac_simps)
  also have "\<dots> = mset (sends [a]) + mset (workers s1) + mset [loop_i s1..<loop_i s']"
    using r(2) by (simp add: ac_simps)
  also have "\<dots> = mset (workers s) + mset [loop_i s..<loop_i s1] + mset [loop_i s1..<loop_i s']"
    using e(2) by simp
  also have "\<dots> = mset (workers s) + mset [loop_i s..<loop_i s']"
    by (simp add: split ac_simps)
  finally show ?case using e(1) r(1) by simp
qed

lemma exec_after_loop:
  assumes "exec sha256 limit a s = Some s'"
    and "loop_i s \<le> Suc limit \<and> (pc s \<noteq> AtLoop \<longrightarrow> workers s = [] \<and> loop_i s = Suc limit)"
  shows "loop_i s' \<le> Suc limit \<and> (pc s' \<noteq> AtLoop \<longrightarrow> workers s' = [] \<and> loop_i s' = Suc limit)"
proof (cases a)
  case Receive
  with assms show ?thesis
    by (auto simp: WriteString_control split: if_splits list.splits)
qed (use assms in \<open>auto simp: Flush_control split: if_splits\<close>)

lemma run_after_loop:
  "run sha256 limit schedule s = Some s' \<Longrightarrow>
   loop_i s \<le> Suc limit \<and> (pc s \<noteq> AtLoop \<longrightarrow> workers s = [] \<and> loop_i s = Suc limit) \<Longrightarrow>
   loop_i s' \<le> Suc limit \<and> (pc s' \<noteq> AtLoop \<longrightarrow> workers s' = [] \<and> loop_i s' = Suc limit)"
proof (induction schedule arbitrary: s)
  case Nil
  then show ?case by simp
next
  case (Cons a schedule)
  then obtain s1 where 1: "exec sha256 limit a s = Some s1"
    and 2: "run sha256 limit schedule s1 = Some s'"
    by (auto split: option.splits)
  from exec_after_loop [OF 1 Cons.prems(2)] Cons.IH [OF 2] show ?case by blast
qed

lemma returned_after_all_workers:
  assumes "calculateAndStoreHashes sha256 limit created schedule = Some (Inr s)"
  shows "workers s = [] \<and> mset (sends schedule) = mset [0..<Suc limit]"
proof -
  from assms have r: "run sha256 limit schedule build_start = Some s" and p: "pc s = Returned"
    by (auto simp: calculateAndStoreHashes_def split: option.splits if_splits)
  from run_after_loop [OF r] p have w: "workers s = []" and i: "loop_i s = Suc limit"
    by (simp_all add: build_start_def)
  from run_workers [OF r] w i show ?thesis by (simp add: build_start_def)
qed

lemma quiescent:
  "pc s = Returned \<Longrightarrow> workers s = [] \<Longrightarrow> \<not> writer_running s \<Longrightarrow> exec sha256 limit a s = None"
  by (cases a) auto

subsection \<open>While the file is open\<close>

text \<open>
  As long as the file has not been closed, no write fails, and the bytes in the file,
  then in the buffered writer, then in the channel are the records sent so far, in the
  order in which they were sent.
\<close>

lemma Flush_open:
  "\<not> file_closed s \<Longrightarrow> \<not> writer_err s \<Longrightarrow>
   \<not> file_closed (Flush s) \<and> \<not> writer_err (Flush s) \<and> writer_buf (Flush s) = []
   \<and> file_bytes (Flush s) = file_bytes s @ writer_buf s"
  by (simp add: Flush_def file_Write_def Let_def)

lemma WriteString_step_open:
  "\<not> file_closed s \<Longrightarrow> \<not> writer_err s \<Longrightarrow> WriteString_step str s = (str', s') \<Longrightarrow>
   \<not> file_closed s' \<and> \<not> writer_err s'
   \<and> file_bytes s' @ writer_buf s' @ str' = file_bytes s @ writer_buf s @ str"
  by (auto simp: WriteString_step_def file_Write_def Let_def Flush_open split: if_splits)

lemma WriteString_open:
  assumes "\<not> file_closed s" "\<not> writer_err s"
  shows "\<not> file_closed (WriteString str s) \<and> \<not> writer_err (WriteString str s)
   \<and> file_bytes (WriteString str s) @ writer_buf (WriteString str s)
       = file_bytes s @ writer_buf s @ str"
proof -
  obtain str1 s1 where 1: "WriteString_step str s = (str1, s1)" by (cases "WriteString_step str s")
  obtain str2 s2 where 2: "WriteString_step str1 s1 = (str2, s2)" by (cases "WriteString_step str1 s1")
  from WriteString_step_open [OF assms 1]
  have a: "\<not> file_closed s1" "\<not> writer_err s1"
    "file_bytes s1 @ writer_buf s1 @ str1 = file_bytes s @ writer_buf s @ str" by simp_all
  from WriteString_step_open [OF a(1,2) 2]
  have b: "\<not> file_closed s2" "\<not> writer_err s2"
    "file_bytes s2 @ writer_buf s2 @ str2 = file_bytes s1 @ writer_buf s1 @ str1" by simp_all
  from 1 2 a b show ?thesis by (simp add: WriteString_def)
qed

lemma Flush_file_closed: "file_closed (Flush s) = file_closed s"
  by (simp add: Flush_def file_Write_def Let_def)

lemma WriteString_step_file_closed:
  "WriteString_step str s = (str', s') \<Longrightarrow> file_closed s' = file_closed s"
  by (auto simp: WriteString_step_def file_Write_def Let_def Flush_file_closed split: if_splits)

lemma WriteString_file_closed: "file_closed (WriteString str s) = file_closed s"
proof -
  obtain str1 s1 where 1: "WriteString_step str s = (str1, s1)" by (cases "WriteString_step str s")
  obtain str2 s2 where 2: "WriteString_step str1 s1 = (str2, s2)" by (cases "WriteString_step str1 s1")
  from WriteString_step_file_closed [OF 1] WriteString_step_file_closed [OF 2] 1 2
  show ?thesis by (simp add: WriteString_def)
qed

lemma exec_file_closed:
  "exec sha256 limit a s = Some s' \<Longrightarrow> file_closed s \<Longrightarrow> file_closed s'"
  by (cases a) (auto simp: Flush_file_closed WriteString_file_closed split: if_splits list.splits)


lemma exec_open:
  assumes e: "exec sha256 limit a s = Some s'"
    and o: "\<not> file_closed s'"
    and i: "\<not> writer_err s"
      "pc s \<noteq> AtLoop \<longrightarrow> workers s = []"
      "channel_closed s \<longrightarrow> pc s \<noteq> AtLoop"
      "\<not> writer_running s \<longrightarrow> hashChannel s = [] \<and> channel_closed s \<and> writer_buf s = []"
  shows "\<not> file_closed s \<and> \<not> writer_err s'
    \<and> (pc s' \<noteq> AtLoop \<longrightarrow> workers s' = [])
    \<and> (channel_closed s' \<longrightarrow> pc s' \<noteq> AtLoop)
    \<and> (\<not> writer_running s' \<longrightarrow> hashChannel s' = [] \<and> channel_closed s' \<and> writer_buf s' = [])
    \<and> file_bytes s' @ writer_buf s' @ concat (hashChannel s')
        = file_bytes s @ writer_buf s @ concat (hashChannel s)
          @ concat (map (hash_record sha256) (sends [a]))"
proof -
  have c: "\<not> file_closed s" using exec_file_closed [OF e] o by blast
  show ?thesis
  proof (cases a)
    case Receive
    with e obtain h rest where h: "hashChannel s = h # rest" "writer_running s"
      and s': "s' = WriteString h (s\<lparr>hashChannel := rest\<rparr>)"
      by (auto split: if_splits list.splits)
    let ?s = "s\<lparr>hashChannel := rest\<rparr>"
    have w: "\<not> writer_err s'" "file_bytes s' @ writer_buf s' = file_bytes s @ writer_buf s @ h"
      using WriteString_open [of ?s h] c i(1) s' by simp_all
    have ctl: "workers s' = workers s" "pc s' = pc s" "hashChannel s' = rest"
      "channel_closed s' = channel_closed s" "writer_running s' = writer_running s"
      using WriteString_control [of h ?s] s' by simp_all
    have "file_bytes s' @ writer_buf s' @ concat (hashChannel s')
        = (file_bytes s' @ writer_buf s') @ concat rest" using ctl by simp
    also have "\<dots> = file_bytes s @ writer_buf s @ concat (hashChannel s)"
      using w(2) h(1) by simp
    finally show ?thesis using c w(1) ctl i h Receive by simp
  next
    case WriterExit
    with e have g: "writer_running s" "hashChannel s = []" "channel_closed s"
      and s': "s' = (Flush s)\<lparr>writer_running := False\<rparr>"
      by (auto split: if_splits)
    from Flush_open [OF c i(1)] Flush_control [of s] s' g i WriterExit c
    show ?thesis by simp
  next
    case DeferredFlush
    with e have g: "pc s = AtDeferredFlush"
      and s': "s' = (Flush s)\<lparr>pc := AtDeferredClose\<rparr>"
      by (auto split: if_splits)
    from Flush_open [OF c i(1)] Flush_control [of s] s' g i DeferredFlush c
    show ?thesis by simp
  next
    case DeferredClose
    with e o show ?thesis by (auto split: if_splits)
  qed (use e c i in \<open>auto split: if_splits\<close>)
qed


lemma run_file_closed:
  "run sha256 limit schedule s = Some s' \<Longrightarrow> file_closed s \<Longrightarrow> file_closed s'"
proof (induction schedule arbitrary: s)
  case Nil
  then show ?case by simp
next
  case (Cons a schedule)
  then show ?case by (auto split: option.splits dest: exec_file_closed)
qed

lemma run_open:
  "run sha256 limit schedule s = Some s' \<Longrightarrow> \<not> file_closed s' \<Longrightarrow>
   \<not> writer_err s \<Longrightarrow> (pc s \<noteq> AtLoop \<longrightarrow> workers s = []) \<Longrightarrow>
   (channel_closed s \<longrightarrow> pc s \<noteq> AtLoop) \<Longrightarrow>
   (\<not> writer_running s \<longrightarrow> hashChannel s = [] \<and> channel_closed s \<and> writer_buf s = []) \<Longrightarrow>
   (channel_closed s' \<longrightarrow> pc s' \<noteq> AtLoop)
   \<and> (\<not> writer_running s' \<longrightarrow> hashChannel s' = [] \<and> channel_closed s' \<and> writer_buf s' = [])
   \<and> file_bytes s' @ writer_buf s' @ concat (hashChannel s')
        = file_bytes s @ writer_buf s @ concat (hashChannel s)
          @ concat (map (hash_record sha256) (sends schedule))"
proof (induction schedule arbitrary: s)
  case Nil
  then show ?case by simp
next
  case (Cons a schedule)
  then obtain s1 where 1: "exec sha256 limit a s = Some s1"
    and 2: "run sha256 limit schedule s1 = Some s'"
    by (auto split: option.splits)
  have o1: "\<not> file_closed s1"
    using run_file_closed [OF 2] Cons.prems(2) by blast
  from exec_open [OF 1 o1 Cons.prems(3,4,5,6)]
  have e: "\<not> writer_err s1" "pc s1 \<noteq> AtLoop \<longrightarrow> workers s1 = []"
    "channel_closed s1 \<longrightarrow> pc s1 \<noteq> AtLoop"
    "\<not> writer_running s1 \<longrightarrow> hashChannel s1 = [] \<and> channel_closed s1 \<and> writer_buf s1 = []"
    "file_bytes s1 @ writer_buf s1 @ concat (hashChannel s1)
        = file_bytes s @ writer_buf s @ concat (hashChannel s)
          @ concat (map (hash_record sha256) (sends [a]))"
    by simp_all
  from Cons.IH [OF 2 Cons.prems(2) e(1,2,3,4)]
  have r: "channel_closed s' \<longrightarrow> pc s' \<noteq> AtLoop"
    "\<not> writer_running s' \<longrightarrow> hashChannel s' = [] \<and> channel_closed s' \<and> writer_buf s' = []"
    "file_bytes s' @ writer_buf s' @ concat (hashChannel s')
        = file_bytes s1 @ writer_buf s1 @ concat (hashChannel s1)
          @ concat (map (hash_record sha256) (sends schedule))"
    by simp_all
  have "file_bytes s' @ writer_buf s' @ concat (hashChannel s')
      = (file_bytes s1 @ writer_buf s1 @ concat (hashChannel s1))
          @ concat (map (hash_record sha256) (sends schedule))"
    using r(3) by simp
  also have "\<dots> = file_bytes s @ writer_buf s @ concat (hashChannel s)
          @ concat (map (hash_record sha256) (sends [a]))
          @ concat (map (hash_record sha256) (sends schedule))"
    using e(5) by simp
  also have "\<dots> = file_bytes s @ writer_buf s @ concat (hashChannel s)
          @ concat (map (hash_record sha256) (sends (a # schedule)))"
    by (subst (2) sends_Cons) simp
  finally show ?case using r(1,2) by simp
qed

text \<open>
  When the writer goroutine has finished while the file is still open, the file holds
  the records of all the token numbers from 0 to the limit, each once.
\<close>

lemma writer_finished_first:
  assumes r: "run sha256 limit schedule build_start = Some s"
    and w: "\<not> writer_running s" and o: "\<not> file_closed s"
  shows "file_bytes s = concat (map (hash_record sha256) (sends schedule))
     \<and> mset (sends schedule) = mset [0..<Suc limit]"
proof -
  from run_open [OF r o]
  have c: "channel_closed s \<longrightarrow> pc s \<noteq> AtLoop"
    and d: "\<not> writer_running s \<longrightarrow> hashChannel s = [] \<and> channel_closed s \<and> writer_buf s = []"
    and f: "file_bytes s @ writer_buf s @ concat (hashChannel s)
        = concat (map (hash_record sha256) (sends schedule))"
    by (simp_all add: build_start_def)
  from d w have d': "hashChannel s = []" "channel_closed s" "writer_buf s = []" by simp_all
  with f have fb: "file_bytes s = concat (map (hash_record sha256) (sends schedule))" by simp
  from c d' have "pc s \<noteq> AtLoop" by simp
  with run_after_loop [OF r] have "workers s = []" "loop_i s = Suc limit"
    by (simp_all add: build_start_def)
  with run_workers [OF r] have "mset (sends schedule) = mset [0..<Suc limit]"
    by (simp add: build_start_def)
  with fb show ?thesis by simp
qed

text \<open>Once the file is closed its bytes stay what they are.\<close>

lemma exec_after_file_closed:
  "exec sha256 limit a s = Some s' \<Longrightarrow> file_closed s \<Longrightarrow> file_bytes s' = file_bytes s"
  by (cases a)
    (auto simp: Flush_closed_file WriteString_closed_file split: if_splits list.splits)


lemma run_after_file_closed:
  "run sha256 limit schedule s = Some s' \<Longrightarrow> file_closed s \<Longrightarrow> file_bytes s' = file_bytes s"
proof (induction schedule arbitrary: s)
  case Nil
  then show ?case by simp
next
  case (Cons a schedule)
  then obtain s1 where 1: "exec sha256 limit a s = Some s1"
    and 2: "run sha256 limit schedule s1 = Some s'"
    by (auto split: option.splits)
  from exec_after_file_closed [OF 1 Cons.prems(2)] exec_file_closed [OF 1 Cons.prems(2)]
    Cons.IH [OF 2]
  show ?case by simp
qed

text \<open>
  A send on a closed channel would panic. The channel is closed only after
  \<open>wg.Wait()\<close>, so no worker is left to send in any state with the channel closed.
\<close>

lemma exec_closed_channel:
  "exec sha256 limit a s = Some s' \<Longrightarrow> channel_closed s \<longrightarrow> pc s \<noteq> AtLoop \<Longrightarrow>
   channel_closed s' \<longrightarrow> pc s' \<noteq> AtLoop"
  by (cases a) (auto simp: Flush_control WriteString_control split: if_splits list.splits)

lemma run_closed_channel:
  "run sha256 limit schedule s = Some s' \<Longrightarrow> channel_closed s \<longrightarrow> pc s \<noteq> AtLoop \<Longrightarrow>
   channel_closed s' \<longrightarrow> pc s' \<noteq> AtLoop"
proof (induction schedule arbitrary: s)
  case Nil
  then show ?case by simp
next
  case (Cons a schedule)
  then obtain s1 where 1: "exec sha256 limit a s = Some s1"
    and 2: "run sha256 limit schedule s1 = Some s'"
    by (auto split: option.splits)
  from exec_closed_channel [OF 1 Cons.prems(2)] Cons.IH [OF 2] show ?case by blast
qed

lemma no_send_on_closed_channel:
  assumes "run sha256 limit schedule build_start = Some s" and "channel_closed s"
  shows "workers s = []"
proof -
  from run_closed_channel [OF assms(1)] assms(2) have "pc s \<noteq> AtLoop"
    by (simp add: build_start_def)
  with run_after_loop [OF assms(1)] show ?thesis by (simp add: build_start_def)
qed

text \<open>A run with limit 1 in which the writer finishes first, and the lines of its file.\<close>

lemma Itoa_0: "Itoa 0 = ''0''"
  by (simp add: Itoa.simps digits_def)

lemma Itoa_1: "Itoa 1 = ''1''"
  by (simp add: Itoa.simps digits_def)

lemma rec_ex: "hash_record (\<lambda>input. []) 0 = [CHR ''0'', CHR '':'', CHR 0x0A]"
  "hash_record (\<lambda>input. []) 1 = [CHR ''1'', CHR '':'', CHR 0x0A]"
  "hash_record (\<lambda>input. []) (Suc 0) = [CHR ''1'', CHR '':'', CHR 0x0A]"
  using Itoa_1 by (simp_all add: hash_record_def Itoa_0 calculateSHA256_def EncodeToString_def)

lemma writer_first_example:
  "map_option (\<lambda>s. (pc s, ScanLines (file_bytes s)))
     (run (\<lambda>input. []) 1
        [Spawn, Spawn, Send 1, Send 0, Receive, Receive, Wait, CloseChannel, WriterExit,
         DeferredFlush, DeferredClose] build_start)
   = Some (Returned, [''1:'', ''0:''])"
  by (simp add: build_start_def concurrency_def channelBufferSize_def bufferSize_def rec_ex
      WriteString_def WriteString_step_def Flush_def file_Write_def ScanLines_def dropCR_def)

subsection \<open>Returning before the writer has finished\<close>

text \<open>
  Claim C6 says that the build returns only after every worker has finished and the
  channel has been drained and flushed to the file. Nothing makes the function body wait
  for the writer goroutine: only the workers are counted in the wait group. With limit 0
  and the schedule below, in which the writer has not run yet, the function has returned
  and closed the file while the only record is still in the channel and the file is
  empty.
\<close>

theorem build_returns_before_drain:
  "calculateAndStoreHashes sha256 0 True
      [Spawn, Send 0, Wait, CloseChannel, DeferredFlush, DeferredClose] =
    Some (Inr \<lparr>loop_i = 1, pc = Returned, workers = [],
           hashChannel = [hash_record sha256 0], channel_closed = True,
           writer_running = True, writer_buf = [], writer_err = False,
           file_bytes = [], file_closed = True\<rparr>)"
  by (simp add: calculateAndStoreHashes_def build_start_def concurrency_def
      channelBufferSize_def Flush_def)

text \<open>
  Claim C5 says that after a completed build with limit \<open>L\<close> the index holds
  \<open>L + 1\<close> entries, one per identifier. When the writer runs only after the function has
  returned, its write fails on the closed file: with limit 0 the run below ends with the
  function returned, the writer finished, the channel empty, and a file without any
  line.
\<close>

theorem build_loses_records:
  "map_option (\<lambda>s. (pc s, workers s, writer_running s, hashChannel s, ScanLines (file_bytes s)))
     (run sha256 0
        [Spawn, Send 0, Wait, CloseChannel, DeferredFlush, DeferredClose, Receive, WriterExit]
        build_start) =
   Some (Returned, [], False, [], [])"
proof -
  let ?s = "\<lparr>loop_i = 1, pc = Returned, workers = [],
           hashChannel = [], channel_closed = True,
           writer_running = True, writer_buf = [], writer_err = False,
           file_bytes = [], file_closed = True\<rparr>"
  let ?w = "WriteString (hash_record sha256 0) ?s"
  have w: "file_bytes ?w = [] \<and> file_closed ?w"
    using WriteString_closed_file [of ?s "hash_record sha256 0"] by simp
  have rest: "pc ?w = Returned \<and> workers ?w = [] \<and> writer_running ?w \<and> hashChannel ?w = []
      \<and> channel_closed ?w"
    by (simp add: WriteString_control)
  have f: "file_bytes (Flush ?w) = []"
    using w Flush_closed_file [of ?w] by simp
  have frest: "pc (Flush ?w) = Returned \<and> workers (Flush ?w) = [] \<and> hashChannel (Flush ?w) = []"
    using rest by (simp add: Flush_control)
  have "run sha256 0
        [Spawn, Send 0, Wait, CloseChannel, DeferredFlush, DeferredClose, Receive, WriterExit]
        build_start = Some ((Flush ?w)\<lparr>writer_running := False\<rparr>)"
    using rest
    by (simp add: build_start_def concurrency_def channelBufferSize_def Flush_def)
  then show ?thesis using f frest by (simp add: ScanLines_def)
qed

end
